theory Spec2Isabelle
  imports Main "HOL-Library.Sublist"
begin

section \<open>Data model\<close>

text \<open>
  A CloudWatch log event is a Python dict. The analyzer guards its reads of
  \<^verbatim>\<open>message\<close> and \<^verbatim>\<open>extractedFields\<close> with \<^verbatim>\<open>in\<close>, so both are optional;
  \<^verbatim>\<open>timestamp\<close> (epoch milliseconds, a Python int) is read unguarded and is always
  delivered by the log service, so it is a plain field. Strings are lists of
  characters; \<^verbatim>\<open>startswith\<close> is \<^const>\<open>prefix\<close>.
\<close>

record log_event =
  timestamp :: int
  message :: "string option"
  extractedFields :: "(string \<rightharpoonup> string) option"

text \<open>The handler context built by \<^verbatim>\<open>lambda_handler\<close>.\<close>

record handler_context =
  log_group_name :: string
  log_stream_name :: string
  function_name :: string
  display_name :: string
  dry_run :: bool

text \<open>
  Failures are values. An \<^verbatim>\<open>assert cond, msg\<close> that fails raises
  \<^verbatim>\<open>AssertionError(msg)\<close>; an unguarded read of a missing key raises \<^verbatim>\<open>KeyError\<close>.
\<close>

datatype error = AssertionError string | KeyError string

section \<open>monitor\_lambda\_runs.py\<close>

subsection \<open>analyze\_run\_events\<close>

text \<open>
  The dict returned by \<^verbatim>\<open>analyze_run_events\<close>; the key \<^verbatim>\<open>end\<close> is written
  \<open>end'\<close>.
\<close>

record run_summary =
  start :: int
  end' :: int
  duration :: int
  errors :: int
  warnings :: int

text \<open>
  One iteration of the \<^verbatim>\<open>for event in events\<close> loop, on the loop variables
  \<^verbatim>\<open>(errors, warnings, startts, endts)\<close>.
\<close>

fun analyze_step :: "log_event \<Rightarrow> int \<times> int \<times> int \<times> int \<Rightarrow> int \<times> int \<times> int \<times> int" where
  "analyze_step event (errs, warns, startts, endts) =
     (case message event of
        None \<Rightarrow> (errs, warns, startts, endts)
      | Some m \<Rightarrow>
          if prefix ''START'' m then (errs, warns, timestamp event, endts)
          else if prefix ''END'' m then (errs, warns, startts, timestamp event)
          else if prefix ''[ERROR]'' m then (errs + 1, warns, startts, endts)
          else if prefix ''[WARNING]'' m then (errs, warns + 1, startts, endts)
          else (errs, warns, startts, endts))"

fun analyze_loop :: "log_event list \<Rightarrow> int \<times> int \<times> int \<times> int \<Rightarrow> int \<times> int \<times> int \<times> int" where
  "analyze_loop [] st = st"
| "analyze_loop (event # rest) st = analyze_loop rest (analyze_step event st)"

definition analyze_run_events ::
  "string \<Rightarrow> log_event list \<Rightarrow> handler_context \<Rightarrow> error + run_summary" where
  "analyze_run_events requestId evs ctx =
     (if \<not> length evs > 0
      then Inl (AssertionError (''No events found for request '' @ requestId))
      else case analyze_loop evs (0, 0, 0, 0) of
        (errs, warns, startts, endts) \<Rightarrow>
          if \<not> startts > 0
          then Inl (AssertionError (''No START event found in request log trace '' @ requestId))
          else if \<not> endts > 0
          then Inl (AssertionError (''No END event found in request log trace '' @ requestId))
          else Inr \<lparr>start = startts, end' = endts, duration = endts - startts,
                    errors = errs, warnings = warns\<rparr>)"

subsection \<open>get\_request\_ids\<close>

text \<open>The identifier one event appends to \<^verbatim>\<open>ids\<close>, if any.\<close>

definition end_request_id :: "log_event \<Rightarrow> string list" where
  "end_request_id event =
     (case extractedFields event of
        None \<Rightarrow> []
      | Some fields' \<Rightarrow>
          if fields' ''type'' \<noteq> None \<and> fields' ''type'' = Some ''END''
             \<and> fields' ''requestId'' \<noteq> None
          then [the (fields' ''requestId'')] else [])"

definition get_request_ids :: "log_event list \<Rightarrow> handler_context \<Rightarrow> error + string list" where
  "get_request_ids evs ctx =
     (let ids = concat (map end_request_id evs) in
      if \<not> length ids > 0
      then Inl (AssertionError ''No END events found in message stream.'')
      else if \<not> length ids = card (set ids)
      then Inl (AssertionError ''Found duplicate request ids'')
      else Inr ids)"

section \<open>format\_request\_events.py\<close>

text \<open>
  The dict \<^verbatim>\<open>dict(info, requestId=requestId, events=events)\<close> that
  \<^verbatim>\<open>process_lambda_run\<close> hands to the formatter.
\<close>

record run_info = run_summary +
  requestId :: string
  events :: "log_event list"

text \<open>
  The renderings done by the \<^verbatim>\<open>datetime\<close> library depend on the time zone of the
  process and on floating point; they are parameters of the model:
  \<open>hms t\<close> is \<^verbatim>\<open>datetime.fromtimestamp(t / 1000).strftime('%H:%M:%S')\<close>,
  \<open>datetime_str t\<close> is \<^verbatim>\<open>str(datetime.fromtimestamp(t / 1000))\<close> and
  \<open>seconds_f d\<close> is \<^verbatim>\<open>'%f' % timedelta(milliseconds=d).total_seconds()\<close>,
  for timestamps in the range where the library returns.
\<close>

record time_rendering =
  hms :: "int \<Rightarrow> string"
  datetime_str :: "int \<Rightarrow> string"
  seconds_f :: "int \<Rightarrow> string"

abbreviation newline :: char where
  "newline \<equiv> CHR 0x0A"

subsection \<open>String formatting\<close>

text \<open>\<^verbatim>\<open>'%-7s' % s\<close>: left-justified in a field of at least \<open>w\<close> characters, never cut.\<close>

definition ljust :: "nat \<Rightarrow> string \<Rightarrow> string" where
  "ljust w s = s @ replicate (w - length s) CHR '' ''"

text \<open>\<^verbatim>\<open>'%d' % n\<close> for a Python int.\<close>

fun str_nat :: "nat \<Rightarrow> string" where
  "str_nat n = (if n < 10 then [char_of (48 + n)]
                else str_nat (n div 10) @ [char_of (48 + n mod 10)])"

declare str_nat.simps [simp del]

definition str_int :: "int \<Rightarrow> string" where
  "str_int i = (if i < 0 then CHR ''-'' # str_nat (nat (- i)) else str_nat (nat i))"

subsection \<open>The regular expression of format\_log\_event\<close>

text \<open>
  Characters are code points below 256. \<^verbatim>\<open>\s\<close> on a \<^verbatim>\<open>str\<close> pattern matches the
  Unicode whitespace characters, which below 256 are 9 to 13, 28 to 32, 133 and 160;
  \<^verbatim>\<open>\S\<close> is its complement, \<^verbatim>\<open>[A-Z]\<close> is 65 to 90, and under \<^verbatim>\<open>(?s)\<close> the dot
  matches every character.
\<close>

definition is_space :: "char \<Rightarrow> bool" where
  "is_space c = (let n = (of_char c :: nat) in
     (9 \<le> n \<and> n \<le> 13) \<or> (28 \<le> n \<and> n \<le> 32) \<or> n = 133 \<or> n = 160)"

definition is_upper :: "char \<Rightarrow> bool" where
  "is_upper c = (let n = (of_char c :: nat) in 65 \<le> n \<and> n \<le> 90)"

text \<open>
  A backtracking matcher in continuation-passing style: each piece of the pattern
  consumes a prefix of the text and hands the rest to the pieces after it; when they
  fail, the piece tries its next alternative.
\<close>

fun first_some :: "('a \<Rightarrow> 'b option) \<Rightarrow> 'a list \<Rightarrow> 'b option" where
  "first_some k [] = None"
| "first_some k (x # xs) = (case k x of Some v \<Rightarrow> Some v | None \<Rightarrow> first_some k xs)"

text \<open>A literal character.\<close>

definition re_lit :: "char \<Rightarrow> string \<Rightarrow> (string \<Rightarrow> 'a option) \<Rightarrow> 'a option" where
  "re_lit c s k = (case s of [] \<Rightarrow> None | x # r \<Rightarrow> if x = c then k r else None)"

text \<open>
  Greedy \<^verbatim>\<open>C+\<close> for a character class \<open>C\<close>: the ways to split the text into one or
  more leading characters of the class and the rest, the longest first.
\<close>

definition plus_splits :: "(char \<Rightarrow> bool) \<Rightarrow> string \<Rightarrow> (string \<times> string) list" where
  "plus_splits C s =
     map (\<lambda>n. (take n s, drop n s)) (rev [1 ..< Suc (length (takeWhile C s))])"

definition re_plus ::
  "(char \<Rightarrow> bool) \<Rightarrow> string \<Rightarrow> (string \<Rightarrow> string \<Rightarrow> 'a option) \<Rightarrow> 'a option" where
  "re_plus C s k = first_some (\<lambda>(a, r). k a r) (plus_splits C s)"

text \<open>
  \<^verbatim>\<open>re.match(r"(?s)\[([A-Z]+)\]\s+\S+\s+\S+\s+(.+)", message)\<close>, anchored at the start
  of the message; the result is \<^verbatim>\<open>(match.group(1), match.group(2))\<close>.
\<close>

definition re_match :: "string \<Rightarrow> (string \<times> string) option" where
  "re_match m =
     re_lit CHR ''['' m (\<lambda>r.
     re_plus is_upper r (\<lambda>g1 r.
     re_lit CHR '']'' r (\<lambda>r.
     re_plus is_space r (\<lambda>_ r.
     re_plus (\<lambda>c. \<not> is_space c) r (\<lambda>_ r.
     re_plus is_space r (\<lambda>_ r.
     re_plus (\<lambda>c. \<not> is_space c) r (\<lambda>_ r.
     re_plus is_space r (\<lambda>_ r.
     re_plus (\<lambda>_. True) r (\<lambda>g2 _. Some (g1, g2))))))))))"

subsection \<open>create\_message\_subject\<close>

definition create_message_subject :: "run_info \<Rightarrow> handler_context \<Rightarrow> string" where
  "create_message_subject info ctx =
     (let base = display_name ctx @ '' request completed'' in
      if errors info > 0 then base @ '' with ERRORS!''
      else if warnings info > 0 then base @ '' with WARNINGS!''
      else base)"

subsection \<open>format\_log\_event\<close>

definition format_log_event :: "(int \<Rightarrow> string) \<Rightarrow> log_event \<Rightarrow> error + string" where
  "format_log_event strftime event =
     (case message event of
        None \<Rightarrow> Inl (KeyError ''message'')
      | Some m \<Rightarrow>
          let ts = strftime (timestamp event) in
          if prefix ''START'' m then Inr (ts @ '' '' @ ljust 7 ''START'' @ [newline])
          else if prefix ''END'' m then Inr (ts @ '' '' @ ljust 7 ''END'' @ [newline])
          else if prefix ''REPORT'' m then Inr []
          else
            let result = (case re_match m of
                            Some (g1, g2) \<Rightarrow> ts @ '' '' @ ljust 7 g1 @ '' '' @ g2
                          | None \<Rightarrow> ts @ '' '' @ m)
            in if \<not> suffix [newline] result then Inr (result @ [newline])
               else Inr result)"

subsection \<open>create\_message\_body\<close>

text \<open>
  \<^verbatim>\<open>''.join(map(format_log_event, info['events']))\<close>: the renderings in arrival
  order with no separator; the first event that raises ends the whole call.
\<close>

fun join_formatted :: "(int \<Rightarrow> string) \<Rightarrow> log_event list \<Rightarrow> error + string" where
  "join_formatted strftime [] = Inr []"
| "join_formatted strftime (event # rest) =
     (case format_log_event strftime event of
        Inl err \<Rightarrow> Inl err
      | Inr s \<Rightarrow> (case join_formatted strftime rest of
                    Inl err \<Rightarrow> Inl err
                  | Inr r \<Rightarrow> Inr (s @ r)))"

definition create_message_body ::
  "time_rendering \<Rightarrow> run_info \<Rightarrow> handler_context \<Rightarrow> error + string" where
  "create_message_body tr info ctx =
     (case join_formatted (hms tr) (events info) of
        Inl err \<Rightarrow> Inl err
      | Inr log \<Rightarrow> Inr (
          ''Execution results for '' @ display_name ctx @ [newline, newline] @
          str_int (errors info) @ '' errors'' @ [newline] @
          str_int (warnings info) @ '' warnings'' @ [newline] @
          [newline] @ ''Execution Log'' @ [newline, newline] @
          log @
          [newline] @ ''Lambda Function: '' @ function_name ctx @ [newline] @
          ''Request ID: '' @ requestId info @ [newline] @
          ''Started: '' @ datetime_str tr (start info) @ [newline] @
          ''Duration: '' @ seconds_f tr (duration info) @ '' seconds''))"

section \<open>Vocabulary of the properties\<close>

text \<open>An event whose message is present and starts with the given marker.\<close>

definition starts_with :: "string \<Rightarrow> log_event \<Rightarrow> bool" where
  "starts_with p e = (case message e of None \<Rightarrow> False | Some m \<Rightarrow> prefix p m)"

text \<open>
  The timestamp of the last event of the sequence that satisfies \<open>P\<close>, and \<open>d\<close> when
  there is none.
\<close>

definition last_timestamp :: "int \<Rightarrow> (log_event \<Rightarrow> bool) \<Rightarrow> log_event list \<Rightarrow> int" where
  "last_timestamp d P es =
     (case filter P es of [] \<Rightarrow> d | x # xs \<Rightarrow> timestamp (last (x # xs)))"

text \<open>The three assertion failures of the analyzer, and the two of the extractor.\<close>

definition empty_input_error :: "string \<Rightarrow> error" where
  "empty_input_error rid = AssertionError (''No events found for request '' @ rid)"

definition missing_start_error :: "string \<Rightarrow> error" where
  "missing_start_error rid =
     AssertionError (''No START event found in request log trace '' @ rid)"

definition missing_end_error :: "string \<Rightarrow> error" where
  "missing_end_error rid =
     AssertionError (''No END event found in request log trace '' @ rid)"

definition empty_result_error :: error where
  "empty_result_error = AssertionError ''No END events found in message stream.''"

definition duplicate_id_error :: error where
  "duplicate_id_error = AssertionError ''Found duplicate request ids''"

text \<open>
  An End-typed event of a subscription batch, and an End-typed event that carries the
  identifier \<open>i\<close>.
\<close>

definition end_typed :: "log_event \<Rightarrow> bool" where
  "end_typed e =
     (case extractedFields e of None \<Rightarrow> False | Some f \<Rightarrow> f ''type'' = Some ''END'')"

definition end_with_id :: "string \<Rightarrow> log_event \<Rightarrow> bool" where
  "end_with_id i e =
     (case extractedFields e of
        None \<Rightarrow> False
      | Some f \<Rightarrow> f ''type'' = Some ''END'' \<and> f ''requestId'' = Some i)"




subsection \<open>Sample inputs\<close>

definition log_line :: "int \<Rightarrow> string \<Rightarrow> log_event" where
  "log_line t m = \<lparr>timestamp = t, message = Some m, extractedFields = None\<rparr>"

definition end_event :: "string \<Rightarrow> log_event" where
  "end_event i =
     \<lparr>timestamp = 1100, message = Some ''END RequestId'',
      extractedFields = Some [''type'' \<mapsto> ''END'', ''requestId'' \<mapsto> i]\<rparr>"

definition foo_context :: handler_context where
  "foo_context = \<lparr>log_group_name = ''/aws/lambda/foo'', log_stream_name = ''stream'',
                   function_name = ''foo'', display_name = ''foo'', dry_run = True\<rparr>"

definition noon :: "int \<Rightarrow> string" where
  "noon t = ''12:00:00''"

definition noon_rendering :: time_rendering where
  "noon_rendering = \<lparr>hms = noon, datetime_str = (\<lambda>t. ''1970-01-01 12:00:00''),
                      seconds_f = (\<lambda>d. ''0.100000'')\<rparr>"

definition foo_info :: "log_event list \<Rightarrow> run_info" where
  "foo_info es = \<lparr>start = 1000, end' = 1100, duration = 100, errors = 1, warnings = 0,
                  requestId = ''r1'', events = es\<rparr>"

section \<open>Properties of the Run Analyzer\<close>

lemma prefix_heads: "prefix (a # as) m \<Longrightarrow> prefix (b # bs) m \<Longrightarrow> a = b"
  by (auto simp: prefix_def)

lemma prefix_heads2: "prefix (a # a' # as) m \<Longrightarrow> prefix (b # b' # bs) m \<Longrightarrow> a' = b'"
  by (auto simp: prefix_def)

lemma analyze_step_eq:
  "analyze_step e (a, b, c, d) =
     (a + (if starts_with ''[ERROR]'' e then 1 else 0),
      b + (if starts_with ''[WARNING]'' e then 1 else 0),
      (if starts_with ''START'' e then timestamp e else c),
      (if starts_with ''END'' e then timestamp e else d))"
proof (cases "message e")
  case None
  then show ?thesis by (simp add: starts_with_def)
next
  case (Some m)
  have "prefix ''START'' m \<Longrightarrow>
          \<not> prefix ''END'' m \<and> \<not> prefix ''[ERROR]'' m \<and> \<not> prefix ''[WARNING]'' m"
    by (auto dest: prefix_heads)
  moreover have "prefix ''END'' m \<Longrightarrow> \<not> prefix ''[ERROR]'' m \<and> \<not> prefix ''[WARNING]'' m"
    by (auto dest: prefix_heads)
  moreover have "prefix ''[ERROR]'' m \<Longrightarrow> \<not> prefix ''[WARNING]'' m"
    by (auto dest: prefix_heads2)
  ultimately show ?thesis using Some by (auto simp: starts_with_def)
qed

lemma last_timestamp_Cons:
  "last_timestamp d P (e # es) = last_timestamp (if P e then timestamp e else d) P es"
  by (simp add: last_timestamp_def split: list.splits)

lemma analyze_loop_eq:
  "analyze_loop es (a, b, c, d) =
     (a + int (length (filter (starts_with ''[ERROR]'') es)),
      b + int (length (filter (starts_with ''[WARNING]'') es)),
      last_timestamp c (starts_with ''START'') es,
      last_timestamp d (starts_with ''END'') es)"
proof (induction es arbitrary: a b c d)
  case Nil
  show ?case by (simp add: last_timestamp_def)
next
  case (Cons e es)
  show ?case
    by (simp only: analyze_loop.simps analyze_step_eq Cons.IH last_timestamp_Cons) simp
qed

lemma analyze_run_events_eq:
  "analyze_run_events rid es ctx =
     (if es = [] then Inl (empty_input_error rid)
      else if last_timestamp 0 (starts_with ''START'') es \<le> 0
      then Inl (missing_start_error rid)
      else if last_timestamp 0 (starts_with ''END'') es \<le> 0
      then Inl (missing_end_error rid)
      else Inr \<lparr>start = last_timestamp 0 (starts_with ''START'') es,
                end' = last_timestamp 0 (starts_with ''END'') es,
                duration = last_timestamp 0 (starts_with ''END'') es
                         - last_timestamp 0 (starts_with ''START'') es,
                errors = int (length (filter (starts_with ''[ERROR]'') es)),
                warnings = int (length (filter (starts_with ''[WARNING]'') es))\<rparr>)"
  by (simp add: analyze_run_events_def analyze_loop_eq not_le empty_input_error_def
        missing_start_error_def missing_end_error_def)

lemma last_timestamp_none: "filter P es = [] \<Longrightarrow> last_timestamp d P es = d"
  by (simp add: last_timestamp_def)

lemma last_timestamp_single: "filter P es = [x] \<Longrightarrow> last_timestamp d P es = timestamp x"
  by (simp add: last_timestamp_def)

lemma last_timestamp_pos:
  assumes "0 < last_timestamp 0 P es"
  shows "filter P es \<noteq> [] \<and> last_timestamp 0 P es = timestamp (last (filter P es))"
  using assms by (cases "filter P es") (simp_all add: last_timestamp_def)

lemma filter_nonempty_list: "filter P es = x # xs \<Longrightarrow> es \<noteq> []"
  by auto

subsection \<open>Which sequences are analyzed\<close>

text \<open>
  C1, as amended. The analyzer does not count markers. It fails on every event sequence
  with no message starting with START or no message starting with END; a sequence
  with several START or END events is accepted, the last of each kind giving the
  timestamp. It returns a summary exactly when the last START event and the last END
  event exist and both carry a strictly positive timestamp, and the summary then has
  the timestamp of the last START event as its start and the timestamp of the last END
  event as its end.
\<close>

theorem analyze_fails_without_marker:
  "((length (filter (starts_with ''START'') es) = 0
      \<or> length (filter (starts_with ''END'') es) = 0)
     \<longrightarrow> (\<exists>err. analyze_run_events rid es ctx = Inl err))
   \<and> ((\<exists>r. analyze_run_events rid es ctx = Inr r)
        \<longleftrightarrow> 0 < last_timestamp 0 (starts_with ''START'') es
            \<and> 0 < last_timestamp 0 (starts_with ''END'') es)
   \<and> (\<forall>r. analyze_run_events rid es ctx = Inr r \<longrightarrow>
          filter (starts_with ''START'') es \<noteq> []
          \<and> filter (starts_with ''END'') es \<noteq> []
          \<and> start r = timestamp (last (filter (starts_with ''START'') es))
          \<and> end' r = timestamp (last (filter (starts_with ''END'') es))
          \<and> duration r = timestamp (last (filter (starts_with ''END'') es))
                         - timestamp (last (filter (starts_with ''START'') es)))"
proof (intro conjI allI impI)
  assume "length (filter (starts_with ''START'') es) = 0
            \<or> length (filter (starts_with ''END'') es) = 0"
  then show "\<exists>err. analyze_run_events rid es ctx = Inl err"
    by (auto simp: analyze_run_events_eq last_timestamp_none)
next
  have "es = [] \<Longrightarrow> last_timestamp 0 (starts_with ''START'') es = 0"
    by (simp add: last_timestamp_def)
  then show "(\<exists>r. analyze_run_events rid es ctx = Inr r)
        \<longleftrightarrow> 0 < last_timestamp 0 (starts_with ''START'') es
            \<and> 0 < last_timestamp 0 (starts_with ''END'') es"
    by (auto simp: analyze_run_events_eq)
next
  fix r assume r: "analyze_run_events rid es ctx = Inr r"
  then have pos: "0 < last_timestamp 0 (starts_with ''START'') es"
      "0 < last_timestamp 0 (starts_with ''END'') es"
    and flds: "start r = last_timestamp 0 (starts_with ''START'') es"
      "end' r = last_timestamp 0 (starts_with ''END'') es"
      "duration r = end' r - start r"
    by (auto simp: analyze_run_events_eq split: if_splits)
  note s = last_timestamp_pos [OF pos(1)] and e = last_timestamp_pos [OF pos(2)]
  show "filter (starts_with ''START'') es \<noteq> []" using s by simp
  show "filter (starts_with ''END'') es \<noteq> []" using e by simp
  show "start r = timestamp (last (filter (starts_with ''START'') es))"
    using s flds by simp
  show "end' r = timestamp (last (filter (starts_with ''END'') es))"
    using e flds by simp
  show "duration r = timestamp (last (filter (starts_with ''END'') es))
                         - timestamp (last (filter (starts_with ''START'') es))"
    using s e flds by simp
qed

theorem analyze_fails_without_marker_witness:
  "length (filter (starts_with ''START'') [log_line 1100 ''END RequestId: r1'']) = 0
   \<and> (\<exists>err. analyze_run_events ''r1'' [log_line 1100 ''END RequestId: r1''] foo_context = Inl err)
   \<and> \<not> 0 < last_timestamp 0 (starts_with ''START'') [log_line 1100 ''END RequestId: r1'']
   \<and> (\<exists>r. analyze_run_events ''r1''
          [log_line 1000 ''START RequestId: r1'', log_line 1050 ''START RequestId: r1'',
           log_line 1100 ''END RequestId: r1''] foo_context = Inr r
        \<and> start r = 1050 \<and> end' r = 1100 \<and> duration r = 50)"
proof -
  let ?two = "[log_line 1000 ''START RequestId: r1'', log_line 1050 ''START RequestId: r1'',
               log_line 1100 ''END RequestId: r1'']"
  have a: "length (filter (starts_with ''START'') [log_line 1100 ''END RequestId: r1'']) = 0
     \<and> (\<exists>err. analyze_run_events ''r1'' [log_line 1100 ''END RequestId: r1''] foo_context
                 = Inl err)
     \<and> \<not> 0 < last_timestamp 0 (starts_with ''START'') [log_line 1100 ''END RequestId: r1'']"
    using analyze_fails_without_marker
          [of "[log_line 1100 ''END RequestId: r1'']" "''r1''" foo_context]
    by (simp add: starts_with_def log_line_def last_timestamp_def)
  note T = analyze_fails_without_marker [of ?two "''r1''" foo_context]
  have pos: "0 < last_timestamp 0 (starts_with ''START'') ?two
             \<and> 0 < last_timestamp 0 (starts_with ''END'') ?two"
    by (simp add: starts_with_def log_line_def last_timestamp_def)
  with T [THEN conjunct2, THEN conjunct1]
  obtain r where r: "analyze_run_events ''r1'' ?two foo_context = Inr r" by blast
  from T [THEN conjunct2, THEN conjunct2, rule_format, OF r]
  have "start r = 1050 \<and> end' r = 1100 \<and> duration r = 50"
    by (simp add: starts_with_def log_line_def)
  with r a show ?thesis by blast
qed

theorem analyze_accepts_two_starts:
  "length (filter (starts_with ''START'')
       [log_line 1000 ''START RequestId: r1'', log_line 1050 ''START RequestId: r1'',
        log_line 1100 ''END RequestId: r1'']) \<noteq> 1
   \<and> analyze_run_events ''r1''
       [log_line 1000 ''START RequestId: r1'', log_line 1050 ''START RequestId: r1'',
        log_line 1100 ''END RequestId: r1''] foo_context
     = Inr \<lparr>start = 1050, end' = 1100, duration = 50, errors = 0, warnings = 0\<rparr>"
  by (simp add: analyze_run_events_def starts_with_def log_line_def)

subsection \<open>The duration\<close>

text \<open>
  C2. For every non-empty event sequence with exactly one event \<open>s\<close> whose message
  starts with START and exactly one event \<open>e\<close> whose message starts with END, the
  duration of the returned summary is the timestamp of \<open>e\<close> minus the timestamp of
  \<open>s\<close>, an integer number of milliseconds, and it is zero when the two timestamps
  coincide. The summary is returned whenever both timestamps are positive.
\<close>

theorem duration_is_end_minus_start:
  assumes "es \<noteq> []"
    and "filter (starts_with ''START'') es = [s]"
    and "filter (starts_with ''END'') es = [e]"
  shows "(\<forall>r. analyze_run_events rid es ctx = Inr r \<longrightarrow>
            duration r = timestamp e - timestamp s
            \<and> (timestamp e = timestamp s \<longrightarrow> duration r = 0))
         \<and> (0 < timestamp s \<and> 0 < timestamp e \<longrightarrow>
              (\<exists>r. analyze_run_events rid es ctx = Inr r
                   \<and> start r = timestamp s \<and> end' r = timestamp e))"
  using assms
  by (auto simp: analyze_run_events_eq last_timestamp_single split: if_splits)

theorem duration_is_end_minus_start_witness:
  "[log_line 1000 ''START RequestId: r1'', log_line 1000 ''END RequestId: r1''] \<noteq> []
   \<and> (\<exists>r. analyze_run_events ''r1''
        [log_line 1000 ''START RequestId: r1'', log_line 1000 ''END RequestId: r1''] foo_context = Inr r
      \<and> duration r = 0 \<and> start r = 1000 \<and> end' r = 1000)"
proof -
  let ?s = "log_line 1000 ''START RequestId: r1''"
  let ?e = "log_line 1000 ''END RequestId: r1''"
  have a: "[?s, ?e] \<noteq> []" by simp
  have b: "filter (starts_with ''START'') [?s, ?e] = [?s]"
    by (simp add: starts_with_def log_line_def)
  have c: "filter (starts_with ''END'') [?s, ?e] = [?e]"
    by (simp add: starts_with_def log_line_def)
  have d: "timestamp ?s = 1000" "timestamp ?e = 1000" by (simp_all add: log_line_def)
  show ?thesis
    using duration_is_end_minus_start [OF a b c, of "''r1''" foo_context] d
    by auto
qed

subsection \<open>The three failures\<close>

text \<open>
  C4, as amended. The analyzer fails with the empty-input error on the empty sequence
  and with the missing-Start error on a non-empty sequence with no message starting
  with START. On a sequence with no message starting with END it fails with the
  missing-End error when the START check, which is made first, passes: the last START
  event carries a strictly positive timestamp. A non-empty sequence that does not pass
  the START check fails with the missing-Start error, also when a START event is
  present with a timestamp that is not positive. Every failure is one of these three
  errors, which are pairwise different.
\<close>

theorem analyze_specific_errors:
  "(es = [] \<longrightarrow> analyze_run_events rid es ctx = Inl (empty_input_error rid))
   \<and> (es \<noteq> [] \<and> filter (starts_with ''START'') es = []
        \<longrightarrow> analyze_run_events rid es ctx = Inl (missing_start_error rid))
   \<and> (0 < last_timestamp 0 (starts_with ''START'') es \<and> filter (starts_with ''END'') es = []
        \<longrightarrow> analyze_run_events rid es ctx = Inl (missing_end_error rid))
   \<and> empty_input_error rid \<noteq> missing_start_error rid
   \<and> empty_input_error rid \<noteq> missing_end_error rid
   \<and> missing_start_error rid \<noteq> missing_end_error rid
   \<and> (es \<noteq> [] \<and> \<not> 0 < last_timestamp 0 (starts_with ''START'') es
        \<longrightarrow> analyze_run_events rid es ctx = Inl (missing_start_error rid))
   \<and> (\<forall>err. analyze_run_events rid es ctx = Inl err \<longrightarrow>
          err = empty_input_error rid \<or> err = missing_start_error rid
          \<or> err = missing_end_error rid)"
proof -
  have ne: "0 < last_timestamp 0 (starts_with ''START'') es \<Longrightarrow> es \<noteq> []"
    by (auto simp: last_timestamp_def)
  have distinct_errors: "empty_input_error rid \<noteq> missing_start_error rid"
      "empty_input_error rid \<noteq> missing_end_error rid"
      "missing_start_error rid \<noteq> missing_end_error rid"
    by (simp_all add: empty_input_error_def missing_start_error_def missing_end_error_def)
  have "es = [] \<longrightarrow> analyze_run_events rid es ctx = Inl (empty_input_error rid)"
    by (simp add: analyze_run_events_eq)
  moreover have "es \<noteq> [] \<and> filter (starts_with ''START'') es = []
        \<longrightarrow> analyze_run_events rid es ctx = Inl (missing_start_error rid)"
    by (simp add: analyze_run_events_eq last_timestamp_none)
  moreover have "0 < last_timestamp 0 (starts_with ''START'') es
        \<and> filter (starts_with ''END'') es = []
        \<longrightarrow> analyze_run_events rid es ctx = Inl (missing_end_error rid)"
    using ne by (auto simp: analyze_run_events_eq last_timestamp_none)
  moreover have "es \<noteq> [] \<and> \<not> 0 < last_timestamp 0 (starts_with ''START'') es
        \<longrightarrow> analyze_run_events rid es ctx = Inl (missing_start_error rid)"
    by (simp add: analyze_run_events_eq)
  moreover have "\<forall>err. analyze_run_events rid es ctx = Inl err \<longrightarrow>
          err = empty_input_error rid \<or> err = missing_start_error rid
          \<or> err = missing_end_error rid"
    by (auto simp: analyze_run_events_eq split: if_splits)
  ultimately show ?thesis using distinct_errors by blast
qed

theorem analyze_specific_errors_witness:
  "analyze_run_events ''r1'' [] foo_context = Inl (empty_input_error ''r1'')
   \<and> analyze_run_events ''r1'' [log_line 1100 ''END RequestId: r1''] foo_context
       = Inl (missing_start_error ''r1'')
   \<and> analyze_run_events ''r1'' [log_line 1000 ''START RequestId: r1''] foo_context
       = Inl (missing_end_error ''r1'')"
  using analyze_specific_errors [of "[]" "''r1''" foo_context]
    analyze_specific_errors [of "[log_line 1100 ''END RequestId: r1'']" "''r1''" foo_context]
    analyze_specific_errors [of "[log_line 1000 ''START RequestId: r1'']" "''r1''" foo_context]
  by (simp add: starts_with_def log_line_def last_timestamp_def)

theorem start_at_zero_without_end:
  "filter (starts_with ''START'') [log_line 0 ''START RequestId: r1'']
     = [log_line 0 ''START RequestId: r1'']
   \<and> filter (starts_with ''END'') [log_line 0 ''START RequestId: r1''] = []
   \<and> analyze_run_events ''r1'' [log_line 0 ''START RequestId: r1''] foo_context
       = Inl (missing_start_error ''r1'')
   \<and> analyze_run_events ''r1'' [log_line 0 ''START RequestId: r1''] foo_context
       \<noteq> Inl (missing_end_error ''r1'')"
  by (simp add: analyze_run_events_def starts_with_def log_line_def
        missing_start_error_def missing_end_error_def)

subsection \<open>The fields of a summary\<close>

text \<open>
  C7, as amended. In every summary the analyzer returns, the duration is the end
  timestamp minus the start timestamp, both timestamps are strictly positive, and the
  error and warning counts are non-negative. The order of the two timestamps is not
  checked: the duration is non-negative exactly when the start is not after the end.
\<close>

theorem summary_invariants:
  assumes "analyze_run_events rid es ctx = Inr r"
  shows "duration r = end' r - start r \<and> 0 < start r \<and> 0 < end' r
         \<and> 0 \<le> errors r \<and> 0 \<le> warnings r
         \<and> (0 \<le> duration r \<longleftrightarrow> start r \<le> end' r)"
  using assms by (auto simp: analyze_run_events_eq split: if_splits)

theorem summary_invariants_witness:
  "\<exists>r. analyze_run_events ''r1''
      [log_line 1000 ''START RequestId: r1'', log_line 1050 ''[ERROR] boom'',
       log_line 1100 ''END RequestId: r1''] foo_context = Inr r
    \<and> duration r = end' r - start r \<and> 0 < start r \<and> 0 \<le> errors r \<and> 0 \<le> duration r"
proof -
  have "analyze_run_events ''r1''
      [log_line 1000 ''START RequestId: r1'', log_line 1050 ''[ERROR] boom'',
       log_line 1100 ''END RequestId: r1''] foo_context
    = Inr \<lparr>start = 1000, end' = 1100, duration = 100, errors = 1, warnings = 0\<rparr>"
    by (simp add: analyze_run_events_def log_line_def)
  from summary_invariants [OF this] this show ?thesis by simp
qed

theorem negative_duration:
  "analyze_run_events ''r1''
      [log_line 2000 ''START RequestId: r1'', log_line 1100 ''END RequestId: r1''] foo_context
    = Inr \<lparr>start = 2000, end' = 1100, duration = - 900, errors = 0, warnings = 0\<rparr>
   \<and> duration \<lparr>start = 2000, end' = 1100, duration = - 900, errors = 0, warnings = 0\<rparr> < 0"
  by (simp add: analyze_run_events_def log_line_def)

subsection \<open>Zero as the unset timestamp\<close>

text \<open>
  C9. Zero stands for an unset timestamp, and a returned summary has strictly
  positive start and end timestamps. Every sequence whose only START event carries
  timestamp 0 fails with the missing-Start error although the marker is present.
  Every sequence whose only END event carries timestamp 0 fails as well, and with the
  missing-End error when the START marker is in order, so that the START check,
  which is made first, passes.
\<close>

theorem zero_timestamp_is_unset:
  "(filter (starts_with ''START'') es = [s] \<and> timestamp s = 0
      \<longrightarrow> analyze_run_events rid es ctx = Inl (missing_start_error rid))
   \<and> (filter (starts_with ''END'') es = [e] \<and> timestamp e = 0
      \<longrightarrow> (\<exists>err. analyze_run_events rid es ctx = Inl err))
   \<and> (filter (starts_with ''END'') es = [e] \<and> timestamp e = 0
        \<and> 0 < last_timestamp 0 (starts_with ''START'') es
      \<longrightarrow> analyze_run_events rid es ctx = Inl (missing_end_error rid))
   \<and> (\<forall>r. analyze_run_events rid es ctx = Inr r \<longrightarrow> 0 < start r \<and> 0 < end' r)"
  by (auto simp: analyze_run_events_eq last_timestamp_single dest: filter_nonempty_list)

theorem zero_timestamp_is_unset_witness:
  "analyze_run_events ''r1''
      [log_line 0 ''START RequestId: r1'', log_line 1100 ''END RequestId: r1''] foo_context
     = Inl (missing_start_error ''r1'')
   \<and> analyze_run_events ''r1''
      [log_line 1000 ''START RequestId: r1'', log_line 0 ''END RequestId: r1''] foo_context
     = Inl (missing_end_error ''r1'')"
  using zero_timestamp_is_unset
      [where es = "[log_line 0 ''START RequestId: r1'', log_line 1100 ''END RequestId: r1'']"
         and s = "log_line 0 ''START RequestId: r1''" and e = "log_line 1100 ''END RequestId: r1''"
         and rid = "''r1''" and ctx = foo_context]
    zero_timestamp_is_unset
      [where es = "[log_line 1000 ''START RequestId: r1'', log_line 0 ''END RequestId: r1'']"
         and s = "log_line 1000 ''START RequestId: r1''" and e = "log_line 0 ''END RequestId: r1''"
         and rid = "''r1''" and ctx = foo_context]
  by (simp add: starts_with_def log_line_def last_timestamp_def)

section \<open>Properties of the Run Extractor\<close>

lemma end_request_id_untyped: "\<not> end_typed e \<Longrightarrow> end_request_id e = []"
  by (auto simp: end_request_id_def end_typed_def split: option.splits)

lemma ids_empty:
  "filter end_typed es = [] \<Longrightarrow> concat (map end_request_id es) = []"
  by (induction es) (auto simp: end_request_id_untyped split: if_splits)

lemma count_ids:
  "count_list (concat (map end_request_id es)) i = length (filter (end_with_id i) es)"
proof (induction es)
  case Nil
  show ?case by simp
next
  case (Cons e es)
  have "count_list (end_request_id e) i = (if end_with_id i e then 1 else 0)"
    by (auto simp: end_request_id_def end_with_id_def split: option.splits)
  with Cons show ?case by simp
qed

lemma repeated_not_distinct:
  assumes "1 < count_list xs i"
  shows "xs \<noteq> [] \<and> length xs \<noteq> card (set xs)"
proof -
  have "distinct ys \<Longrightarrow> count_list ys i \<le> 1" for ys
    by (induction ys) (auto simp: count_list_0_iff)
  with assms have "\<not> distinct xs" by fastforce
  moreover from assms have "xs \<noteq> []" by auto
  ultimately show ?thesis
    using card_distinct [of xs] by auto
qed

text \<open>
  C3. On every event sequence with no End-typed event the extractor fails with the
  empty-result error; on every sequence in which some identifier is carried by more
  than one End-typed event it fails with the duplicate-id error; and on two End-typed
  events with the identifiers A and B it yields exactly A and B.
\<close>

theorem get_request_ids_results:
  "(filter end_typed es = [] \<longrightarrow> get_request_ids es ctx = Inl empty_result_error)
   \<and> ((\<exists>i. 1 < length (filter (end_with_id i) es))
        \<longrightarrow> get_request_ids es ctx = Inl duplicate_id_error)
   \<and> get_request_ids
        [\<lparr>timestamp = t1, message = m1,
          extractedFields = Some [''type'' \<mapsto> ''END'', ''requestId'' \<mapsto> ''A'']\<rparr>,
         \<lparr>timestamp = t2, message = m2,
          extractedFields = Some [''type'' \<mapsto> ''END'', ''requestId'' \<mapsto> ''B'']\<rparr>] ctx
       = Inr [''A'', ''B'']"
proof (intro conjI impI)
  assume "filter end_typed es = []"
  then show "get_request_ids es ctx = Inl empty_result_error"
    by (simp add: get_request_ids_def ids_empty empty_result_error_def)
next
  assume "\<exists>i. 1 < length (filter (end_with_id i) es)"
  then obtain i where "1 < count_list (concat (map end_request_id es)) i"
    by (auto simp: count_ids)
  from repeated_not_distinct [OF this]
  show "get_request_ids es ctx = Inl duplicate_id_error"
    by (simp add: get_request_ids_def Let_def duplicate_id_error_def)
next
  show "get_request_ids
        [\<lparr>timestamp = t1, message = m1,
          extractedFields = Some [''type'' \<mapsto> ''END'', ''requestId'' \<mapsto> ''A'']\<rparr>,
         \<lparr>timestamp = t2, message = m2,
          extractedFields = Some [''type'' \<mapsto> ''END'', ''requestId'' \<mapsto> ''B'']\<rparr>] ctx
       = Inr [''A'', ''B'']"
    by (simp add: get_request_ids_def end_request_id_def)
qed

theorem get_request_ids_results_witness:
  "filter end_typed [log_line 1000 ''START RequestId: r1''] = []
   \<and> get_request_ids [log_line 1000 ''START RequestId: r1''] foo_context = Inl empty_result_error
   \<and> 1 < length (filter (end_with_id ''A'') [end_event ''A'', end_event ''A''])
   \<and> get_request_ids [end_event ''A'', end_event ''A''] foo_context = Inl duplicate_id_error
   \<and> get_request_ids [end_event ''A'', end_event ''B''] foo_context = Inr [''A'', ''B'']"
proof -
  have a: "filter end_typed [log_line 1000 ''START RequestId: r1''] = []"
    by (simp add: end_typed_def log_line_def)
  have b: "1 < length (filter (end_with_id ''A'') [end_event ''A'', end_event ''A''])"
    by (simp add: end_with_id_def end_event_def)
  then have c: "\<exists>i. 1 < length (filter (end_with_id i) [end_event ''A'', end_event ''A''])" ..
  show ?thesis
    using a b c
      get_request_ids_results [of "[log_line 1000 ''START RequestId: r1'']" foo_context]
      get_request_ids_results [of "[end_event ''A'', end_event ''A'']" foo_context]
      get_request_ids_results [of "[]" foo_context 1100 "Some ''END RequestId''" 1100 "Some ''END RequestId''"]
    by (simp add: end_event_def)
qed

section \<open>Properties of the Report Formatter\<close>

subsection \<open>The subject\<close>

text \<open>
  C6. The subject is chosen in strict priority order: a positive error count gives
  the display name followed by \<^verbatim>\<open> request completed with ERRORS!\<close> whatever the
  warning count is; otherwise a positive warning count gives
  \<^verbatim>\<open> request completed with WARNINGS!\<close>; otherwise the subject is the display name
  followed by \<^verbatim>\<open> request completed\<close>.
\<close>

theorem subject_priority:
  "(errors info > 0 \<longrightarrow>
      create_message_subject info ctx = display_name ctx @ '' request completed with ERRORS!'')
   \<and> (\<not> errors info > 0 \<and> warnings info > 0 \<longrightarrow>
      create_message_subject info ctx = display_name ctx @ '' request completed with WARNINGS!'')
   \<and> (\<not> errors info > 0 \<and> \<not> warnings info > 0 \<longrightarrow>
      create_message_subject info ctx = display_name ctx @ '' request completed'')"
  by (simp add: create_message_subject_def)

theorem subject_priority_witness:
  "errors (foo_info []) > 0
   \<and> create_message_subject (foo_info []) foo_context = ''foo request completed with ERRORS!''
   \<and> create_message_subject ((foo_info [])\<lparr>warnings := 3\<rparr>) foo_context
        = ''foo request completed with ERRORS!''
   \<and> create_message_subject ((foo_info [])\<lparr>errors := 0, warnings := 3\<rparr>) foo_context
        = ''foo request completed with WARNINGS!''
   \<and> create_message_subject ((foo_info [])\<lparr>errors := 0\<rparr>) foo_context
        = ''foo request completed''"
  using subject_priority [of "foo_info []" foo_context]
    subject_priority [of "(foo_info [])\<lparr>warnings := 3\<rparr>" foo_context]
    subject_priority [of "(foo_info [])\<lparr>errors := 0, warnings := 3\<rparr>" foo_context]
    subject_priority [of "(foo_info [])\<lparr>errors := 0\<rparr>" foo_context]
  by (simp add: foo_info_def foo_context_def)

subsection \<open>Report events\<close>

lemma prefix_REPORT: "prefix ''REPORT'' m \<Longrightarrow> \<not> prefix ''START'' m \<and> \<not> prefix ''END'' m"
  by (auto dest: prefix_heads)

lemma format_report: "starts_with ''REPORT'' e \<Longrightarrow> format_log_event f e = Inr []"
  by (auto simp: starts_with_def format_log_event_def prefix_REPORT split: option.splits)

lemma join_formatted_drop:
  "format_log_event f e = Inr [] \<Longrightarrow>
     join_formatted f (es1 @ e # es2) = join_formatted f (es1 @ es2)"
  by (induction es1) (auto split: sum.splits)

text \<open>
  C8. For every event whose message starts with REPORT, \<^verbatim>\<open>format_log_event\<close>
  returns the empty string, so the event contributes no character to the body: the
  body built from a sequence with the event is the body built from the sequence
  without it.
\<close>

theorem report_suppressed:
  assumes "starts_with ''REPORT'' e"
  shows "format_log_event f e = Inr []
         \<and> join_formatted f (es1 @ e # es2) = join_formatted f (es1 @ es2)
         \<and> create_message_body tr (info\<lparr>events := es1 @ e # es2\<rparr>) ctx
             = create_message_body tr (info\<lparr>events := es1 @ es2\<rparr>) ctx"
  using format_report [OF assms, of f] format_report [OF assms, of "hms tr"]
  by (simp add: create_message_body_def join_formatted_drop split: sum.splits)

theorem report_suppressed_witness:
  "starts_with ''REPORT'' (log_line 1100 ''REPORT RequestId: r1 Duration: 100 ms'')
   \<and> format_log_event noon (log_line 1100 ''REPORT RequestId: r1 Duration: 100 ms'') = Inr []
   \<and> create_message_body noon_rendering
        (foo_info [log_line 1000 ''START RequestId: r1'',
                   log_line 1100 ''REPORT RequestId: r1 Duration: 100 ms'']) foo_context
     = create_message_body noon_rendering
        (foo_info [log_line 1000 ''START RequestId: r1'']) foo_context"
proof -
  have a: "starts_with ''REPORT'' (log_line 1100 ''REPORT RequestId: r1 Duration: 100 ms'')"
    by (simp add: starts_with_def log_line_def)
  show ?thesis
    using a report_suppressed [OF a, of noon "[log_line 1000 ''START RequestId: r1'']" "[]"
        noon_rendering "foo_info []" foo_context]
    by (simp add: foo_info_def)
qed

subsection \<open>The pattern\<close>











subsection \<open>Tagged lines\<close>








subsection \<open>Line breaks\<close>

lemma first_some_SomeD: "first_some k xs = Some v \<Longrightarrow> \<exists>x\<in>set xs. k x = Some v"
  by (induction xs) (auto split: option.splits)

lemma plus_splits_mem:
  assumes "(a, r) \<in> set (plus_splits C s)"
  shows "s = a @ r \<and> a \<noteq> [] \<and> (\<forall>c\<in>set a. C c)"
proof -
  from assms obtain n where n: "1 \<le> n" "n \<le> length (takeWhile C s)"
    and a: "a = take n s" and r: "r = drop n s"
    by (auto simp: plus_splits_def)
  have "take n s = take n (takeWhile C s)"
    using n(2) by (subst takeWhile_eq_take) (simp add: min_def)
  then have "set a \<subseteq> set (takeWhile C s)"
    using a by (simp add: set_take_subset)
  then have "\<forall>c\<in>set a. C c" by (auto dest: set_takeWhileD)
  moreover have "n \<le> length s"
    using n(2) length_takeWhile_le [of C s] by simp
  with n(1) a have "a \<noteq> []" by auto
  ultimately show ?thesis using a r by simp
qed

lemma re_plusD:
  assumes "re_plus C s k = Some v"
  shows "\<exists>a r. s = a @ r \<and> a \<noteq> [] \<and> (\<forall>c\<in>set a. C c) \<and> k a r = Some v"
proof -
  from first_some_SomeD [OF assms [unfolded re_plus_def]]
  obtain a r where "(a, r) \<in> set (plus_splits C s)" "k a r = Some v"
    by auto
  with plus_splits_mem show ?thesis by blast
qed

lemma re_litD: "re_lit c s k = Some v \<Longrightarrow> \<exists>r. s = c # r \<and> k r = Some v"
  by (auto simp: re_lit_def split: list.splits if_splits)

lemma re_matchD:
  assumes "re_match m = Some (g1, g2)"
  shows "(\<forall>c\<in>set g1. is_upper c) \<and> set g2 \<subseteq> set m"
proof -
  from assms [unfolded re_match_def] obtain r0 where r0: "m = CHR ''['' # r0"
    and "re_plus is_upper r0 (\<lambda>g1' r.
     re_lit CHR '']'' r (\<lambda>r.
     re_plus is_space r (\<lambda>_ r.
     re_plus (\<lambda>c. \<not> is_space c) r (\<lambda>_ r.
     re_plus is_space r (\<lambda>_ r.
     re_plus (\<lambda>c. \<not> is_space c) r (\<lambda>_ r.
     re_plus is_space r (\<lambda>_ r.
     re_plus (\<lambda>_. True) r (\<lambda>g2' _. Some (g1', g2'))))))))) = Some (g1, g2)"
    by (blast dest: re_litD)
  then obtain t r1 where t: "r0 = t @ r1" "\<forall>c\<in>set t. is_upper c"
    and "re_lit CHR '']'' r1 (\<lambda>r.
     re_plus is_space r (\<lambda>_ r.
     re_plus (\<lambda>c. \<not> is_space c) r (\<lambda>_ r.
     re_plus is_space r (\<lambda>_ r.
     re_plus (\<lambda>c. \<not> is_space c) r (\<lambda>_ r.
     re_plus is_space r (\<lambda>_ r.
     re_plus (\<lambda>_. True) r (\<lambda>g2' _. Some (t, g2')))))))) = Some (g1, g2)"
    by (blast dest: re_plusD)
  then obtain r2 where r2: "r1 = CHR '']'' # r2"
    and "re_plus is_space r2 (\<lambda>_ r.
     re_plus (\<lambda>c. \<not> is_space c) r (\<lambda>_ r.
     re_plus is_space r (\<lambda>_ r.
     re_plus (\<lambda>c. \<not> is_space c) r (\<lambda>_ r.
     re_plus is_space r (\<lambda>_ r.
     re_plus (\<lambda>_. True) r (\<lambda>g2' _. Some (t, g2')))))))  = Some (g1, g2)"
    by (blast dest: re_litD)
  then obtain a3 r3 where r3: "r2 = a3 @ r3"
    and "re_plus (\<lambda>c. \<not> is_space c) r3 (\<lambda>_ r.
     re_plus is_space r (\<lambda>_ r.
     re_plus (\<lambda>c. \<not> is_space c) r (\<lambda>_ r.
     re_plus is_space r (\<lambda>_ r.
     re_plus (\<lambda>_. True) r (\<lambda>g2' _. Some (t, g2'))))))  = Some (g1, g2)"
    by (blast dest: re_plusD)
  then obtain a4 r4 where r4: "r3 = a4 @ r4"
    and "re_plus is_space r4 (\<lambda>_ r.
     re_plus (\<lambda>c. \<not> is_space c) r (\<lambda>_ r.
     re_plus is_space r (\<lambda>_ r.
     re_plus (\<lambda>_. True) r (\<lambda>g2' _. Some (t, g2')))))  = Some (g1, g2)"
    by (blast dest: re_plusD)
  then obtain a5 r5 where r5: "r4 = a5 @ r5"
    and "re_plus (\<lambda>c. \<not> is_space c) r5 (\<lambda>_ r.
     re_plus is_space r (\<lambda>_ r.
     re_plus (\<lambda>_. True) r (\<lambda>g2' _. Some (t, g2'))))  = Some (g1, g2)"
    by (blast dest: re_plusD)
  then obtain a6 r6 where r6: "r5 = a6 @ r6"
    and "re_plus is_space r6 (\<lambda>_ r.
     re_plus (\<lambda>_. True) r (\<lambda>g2' _. Some (t, g2')))  = Some (g1, g2)"
    by (blast dest: re_plusD)
  then obtain a7 r7 where r7: "r6 = a7 @ r7"
    and "re_plus (\<lambda>_. True) r7 (\<lambda>g2' _. Some (t, g2')) = Some (g1, g2)"
    by (blast dest: re_plusD)
  then obtain a8 r8 where r8: "r7 = a8 @ r8" and "Some (t, a8) = Some (g1, g2)"
    by (blast dest: re_plusD)
  then have "g1 = t" "g2 = a8" by simp_all
  with r0 t r2 r3 r4 r5 r6 r7 r8 show ?thesis by auto
qed

lemma ljust_newline: "newline \<in> set (ljust w s) \<longleftrightarrow> newline \<in> set s"
  by (auto simp: ljust_def)

lemma not_upper_newline: "\<not> is_upper newline"
  by (simp add: is_upper_def)

lemma format_log_event_cases:
  assumes "format_log_event f e = Inr s"
  obtains (report) "starts_with ''REPORT'' e" "s = []"
  | (line) body where "\<not> starts_with ''REPORT'' e" "s = body @ [newline]"
      "newline \<notin> set (f (timestamp e)) \<Longrightarrow> \<forall>m. message e = Some m \<longrightarrow> newline \<notin> set m
         \<Longrightarrow> newline \<notin> set body"
proof (cases "message e")
  case None
  with assms show ?thesis by (simp add: format_log_event_def)
next
  case (Some m)
  let ?ts = "f (timestamp e)"
  consider (S) "prefix ''START'' m" | (E) "\<not> prefix ''START'' m" "prefix ''END'' m"
    | (R) "\<not> prefix ''START'' m" "\<not> prefix ''END'' m" "prefix ''REPORT'' m"
    | (O) "\<not> prefix ''START'' m" "\<not> prefix ''END'' m" "\<not> prefix ''REPORT'' m"
    by blast
  then show ?thesis
  proof cases
    case S
    then have a: "\<not> starts_with ''REPORT'' e"
      and b: "s = (?ts @ '' '' @ ljust 7 ''START'') @ [newline]"
      using assms Some prefix_REPORT [of m]
      by (auto simp: format_log_event_def starts_with_def)
    have c: "newline \<notin> set ?ts \<Longrightarrow> newline \<notin> set (?ts @ '' '' @ ljust 7 ''START'')"
      by (simp add: ljust_newline)
    show ?thesis by (rule line [OF a b]) (rule c)
  next
    case E
    then have a: "\<not> starts_with ''REPORT'' e"
      and b: "s = (?ts @ '' '' @ ljust 7 ''END'') @ [newline]"
      using assms Some prefix_REPORT [of m]
      by (auto simp: format_log_event_def starts_with_def)
    have c: "newline \<notin> set ?ts \<Longrightarrow> newline \<notin> set (?ts @ '' '' @ ljust 7 ''END'')"
      by (simp add: ljust_newline)
    show ?thesis by (rule line [OF a b]) (rule c)
  next
    case R
    with assms Some show ?thesis
      by (intro report) (auto simp: format_log_event_def starts_with_def)
  next
    case O
    define result where "result = (case re_match m of
                            Some (g1, g2) \<Rightarrow> ?ts @ '' '' @ ljust 7 g1 @ '' '' @ g2
                          | None \<Rightarrow> ?ts @ '' '' @ m)"
    have s: "s = (if \<not> suffix [newline] result then result @ [newline] else result)"
      using assms Some O by (auto simp: format_log_event_def result_def Let_def)
    have clean: "newline \<notin> set result" if "newline \<notin> set ?ts" "newline \<notin> set m"
    proof (cases "re_match m")
      case None
      with that show ?thesis by (simp add: result_def)
    next
      case (Some g)
      obtain g1 g2 where g: "g = (g1, g2)" by (cases g)
      from re_matchD [OF Some [unfolded g]] that not_upper_newline
      have "newline \<notin> set g1" "newline \<notin> set g2" by auto
      with that Some g show ?thesis by (simp add: result_def ljust_newline)
    qed
    have nr: "\<not> starts_with ''REPORT'' e" using Some O by (simp add: starts_with_def)
    show ?thesis
    proof (cases "suffix [newline] result")
      case True
      then obtain body where body: "result = body @ [newline]" by (auto simp: suffix_def)
      then have "newline \<in> set result" by simp
      with clean Some have "newline \<notin> set ?ts \<Longrightarrow>
          \<forall>m. message e = Some m \<longrightarrow> newline \<notin> set m \<Longrightarrow> newline \<notin> set body"
        by auto
      with nr s True body show ?thesis by (intro line) auto
    next
      case False
      with nr s clean Some show ?thesis by (intro line [of result]) auto
    qed
  qed
qed

lemma join_formatted_lines:
  assumes "join_formatted f es = Inr body"
  shows "(body = [] \<or> last body = newline)
         \<and> ((\<forall>e\<in>set es. newline \<notin> set (f (timestamp e))
                \<and> (\<forall>m. message e = Some m \<longrightarrow> newline \<notin> set m))
             \<longrightarrow> count_list body newline
                   = length (filter (\<lambda>e. \<not> starts_with ''REPORT'' e) es))"
  using assms
proof (induction es arbitrary: body)
  case Nil
  then show ?case by simp
next
  case (Cons e es)
  from Cons.prems obtain s r where s: "format_log_event f e = Inr s"
    and r: "join_formatted f es = Inr r" and body: "body = s @ r"
    by (auto split: sum.splits)
  note IH = Cons.IH [OF r]
  from s show ?case
  proof (cases rule: format_log_event_cases)
    case report
    with IH body show ?thesis by simp
  next
    case (line b)
    with IH body show ?thesis by (cases "r = []") auto
  qed
qed

text \<open>
  C10, as amended. For every event, the string returned by \<^verbatim>\<open>format_log_event\<close> is
  empty exactly for the REPORT messages and otherwise ends with a line break, so the
  concatenation of the renderings of an event sequence is empty or ends with a line
  break. When neither the times nor the messages contain a line break, the
  concatenation has exactly one line per rendered event; a message with line breaks
  gives more than one.
\<close>

theorem rendering_ends_line:
  "(\<forall>s. format_log_event f e = Inr s \<longrightarrow>
      (s = [] \<longleftrightarrow> starts_with ''REPORT'' e) \<and> (s \<noteq> [] \<longrightarrow> last s = newline))
   \<and> (\<forall>body. join_formatted f es = Inr body \<longrightarrow>
        (body = [] \<or> last body = newline)
        \<and> ((\<forall>e\<in>set es. newline \<notin> set (f (timestamp e))
               \<and> (\<forall>m. message e = Some m \<longrightarrow> newline \<notin> set m))
            \<longrightarrow> count_list body newline
                  = length (filter (\<lambda>e. \<not> starts_with ''REPORT'' e) es)))"
proof (intro conjI allI impI)
  fix s assume "format_log_event f e = Inr s"
  then show "(s = []) = starts_with ''REPORT'' e"
    by (cases rule: format_log_event_cases) auto
next
  fix s assume "format_log_event f e = Inr s" "s \<noteq> []"
  then show "last s = newline"
    by (cases rule: format_log_event_cases) auto
next
  fix body assume "join_formatted f es = Inr body"
  from join_formatted_lines [OF this]
  show "body = [] \<or> last body = newline" by blast
next
  fix body assume "join_formatted f es = Inr body"
    and "\<forall>e\<in>set es. newline \<notin> set (f (timestamp e))
               \<and> (\<forall>m. message e = Some m \<longrightarrow> newline \<notin> set m)"
  with join_formatted_lines [of f es body]
  show "count_list body newline = length (filter (\<lambda>e. \<not> starts_with ''REPORT'' e) es)"
    by blast
qed

theorem rendering_ends_line_witness:
  "format_log_event noon (log_line 1000 ''START RequestId: r1'')
     = Inr (''12:00:00 START  '' @ [newline])
   \<and> last (''12:00:00 START  '' @ [newline]) = newline
   \<and> join_formatted noon
        [log_line 1000 ''START RequestId: r1'', log_line 1050 ''[ERROR] boom'',
         log_line 1100 ''REPORT RequestId: r1'']
      = Inr (''12:00:00 START  '' @ [newline] @ ''12:00:00 [ERROR] boom'' @ [newline])
   \<and> count_list (''12:00:00 START  '' @ [newline] @ ''12:00:00 [ERROR] boom'' @ [newline])
        newline = 2
   \<and> length (filter (\<lambda>e. \<not> starts_with ''REPORT'' e)
        [log_line 1000 ''START RequestId: r1'', log_line 1050 ''[ERROR] boom'',
         log_line 1100 ''REPORT RequestId: r1'']) = 2"
proof -
  let ?e = "log_line 1000 ''START RequestId: r1''"
  let ?es = "[log_line 1000 ''START RequestId: r1'', log_line 1050 ''[ERROR] boom'',
              log_line 1100 ''REPORT RequestId: r1'']"
  let ?s = "''12:00:00 START  '' @ [newline]"
  let ?body = "''12:00:00 START  '' @ [newline] @ ''12:00:00 [ERROR] boom'' @ [newline]"
  have a: "format_log_event noon ?e = Inr ?s"
    by code_simp
  have b: "join_formatted noon ?es = Inr ?body"
    by code_simp
  have c: "\<forall>e\<in>set ?es. newline \<notin> set (noon (timestamp e))
             \<and> (\<forall>m. message e = Some m \<longrightarrow> newline \<notin> set m)"
    by (simp add: log_line_def noon_def)
  have d: "length (filter (\<lambda>e. \<not> starts_with ''REPORT'' e) ?es) = 2"
    by (simp add: starts_with_def log_line_def)
  note T = rendering_ends_line [of noon ?e ?es]
  note T1 = T [THEN conjunct1, rule_format, OF a]
  note T2 = T [THEN conjunct2, rule_format, OF b]
  have l: "last ?s = newline"
    using T1 by simp
  from T2 have "(\<forall>e\<in>set ?es. newline \<notin> set (noon (timestamp e))
             \<and> (\<forall>m. message e = Some m \<longrightarrow> newline \<notin> set m))
      \<longrightarrow> count_list ?body newline
            = length (filter (\<lambda>e. \<not> starts_with ''REPORT'' e) ?es)"
    by (rule conjunct2)
  from this c have "count_list ?body newline
            = length (filter (\<lambda>e. \<not> starts_with ''REPORT'' e) ?es)"
    by (rule mp)
  with d have cnt: "count_list ?body newline = 2"
    by (simp only:)
  show ?thesis
    by (intro conjI a l b cnt d)
qed

theorem multi_line_message_two_lines:
  "join_formatted noon [log_line 1050 (''Traceback:'' @ [newline] @ ''  File x'')]
     = Inr (''12:00:00 Traceback:'' @ [newline] @ ''  File x'' @ [newline])
   \<and> count_list (''12:00:00 Traceback:'' @ [newline] @ ''  File x'' @ [newline]) newline = 2
   \<and> length (filter (\<lambda>e. \<not> starts_with ''REPORT'' e)
        [log_line 1050 (''Traceback:'' @ [newline] @ ''  File x'')]) = 1"
  by code_simp

end
